theory Spec2Isabelle
  imports Main
begin

section \<open>LUrlParser: the URL scanner of src/LUrlParser.cpp\<close>

text \<open>
  The source is one C++ file: the helpers \<open>isSchemeValid\<close> and \<open>urlDecode\<close>, the
  accessor \<open>ParseURL::getPort\<close> and the scanner \<open>ParseURL::parseURL\<close>. The scanner works
  on \<open>URL.c_str()\<close> with two \<open>const char*\<close> cursors. In the model a cursor is the suffix
  of the C string it points to, the text between two cursors is a prefix of that suffix,
  and a C++ exception that leaves a function is the \<open>Inl\<close> branch of its result.
\<close>

subsection \<open>Characters and C strings\<close>

text \<open>
  \<open>std::string::c_str()\<close>: the bytes up to the first NUL. \<open>strchr\<close> and every
  \<open>while (*p ...)\<close> loop of the scanner stop there.
\<close>

definition c_str :: "string \<Rightarrow> string" where
  "c_str s = takeWhile (\<lambda>c. c \<noteq> CHR 0x00) s"

text \<open>
  \<open>strchr(s, c)\<close> for \<open>c \<noteq> NUL\<close>: the offset of the first occurrence of \<open>c\<close>,
  \<open>None\<close> for the null pointer.
\<close>

fun strchr :: "string \<Rightarrow> char \<Rightarrow> nat option" where
  "strchr [] c = None"
| "strchr (x # xs) c = (if x = c then Some 0 else map_option Suc (strchr xs c))"

text \<open>
  The \<open><cctype>\<close> classifiers in the "C" locale, the locale a program runs in unless
  it calls \<open>setlocale\<close> (the source never does). A \<open>char\<close> is read as its byte value.
\<close>

definition isupper :: "char \<Rightarrow> bool" where
  "isupper c = (65 \<le> (of_char c :: nat) \<and> (of_char c :: nat) \<le> 90)"

definition islower :: "char \<Rightarrow> bool" where
  "islower c = (97 \<le> (of_char c :: nat) \<and> (of_char c :: nat) \<le> 122)"

definition isalpha :: "char \<Rightarrow> bool" where
  "isalpha c = (isupper c \<or> islower c)"

definition isspace :: "char \<Rightarrow> bool" where
  "isspace c = ((of_char c :: nat) = 32 \<or> (9 \<le> (of_char c :: nat) \<and> (of_char c :: nat) \<le> 13))"

definition tolower :: "char \<Rightarrow> char" where
  "tolower c = (if isupper c then char_of ((of_char c :: nat) + 32) else c)"

text \<open>
  The value of a character as a digit, as \<open>strtol\<close> reads it: \<open>0\<close>-\<open>9\<close>, then the
  letters of either case from 10 on; 36 for a character that is no digit in any base.
\<close>

definition digit_value :: "char \<Rightarrow> nat" where
  "digit_value c =
     (let n = (of_char c :: nat) in
      if 48 \<le> n \<and> n \<le> 57 then n - 48
      else if islower c then n - 87
      else if isupper c then n - 55
      else 36)"

subsection \<open>Exceptions and undefined behaviour\<close>

text \<open>
  What leaves a function of the source other than its return value.
  \<^item> \<open>length_error\<close>: \<open>std::length_error\<close>, thrown by the constructor
    \<open>std::string(const char*, size_t)\<close> for a length above \<open>max_size()\<close>.
  \<^item> \<open>invalid_argument msg\<close>: \<open>std::invalid_argument\<close> with its \<open>what()\<close>; the source
    throws it with the text "Invalid URL encoding" (line 53), and \<open>std::stoi\<close> throws it
    when no conversion can be performed (the text of libstdc++ is "stoi").
  \<^item> \<open>out_of_range msg\<close>: \<open>std::out_of_range\<close>, thrown by \<open>std::stoi\<close> for a value
    outside \<open>int\<close>.
\<close>

datatype abort =
    length_error
  | invalid_argument string
  | out_of_range string

definition INT_MAX :: int where
  "INT_MAX = 2147483647"

definition INT_MIN :: int where
  "INT_MIN = - 2147483648"

text \<open>The range of \<open>long\<close>, 64 bits wide, and the conversion of a \<open>long\<close> to \<open>int\<close>,
  which keeps the low 32 bits and reads them as a signed number.\<close>

definition LONG_MAX :: int where
  "LONG_MAX = 9223372036854775807"

definition LONG_MIN :: int where
  "LONG_MIN = - 9223372036854775808"

definition long_to_int :: "int \<Rightarrow> int" where
  "long_to_int v = (v + 2147483648) mod 4294967296 - 2147483648"

subsection \<open>Number conversions of the C and C++ libraries\<close>

text \<open>
  The subject sequence of \<open>strtol\<close>: white space is skipped, then an optional sign is
  read. \<open>strtol_sign\<close> is whether the sign is a minus, \<open>strtol_body\<close> the text after it.
\<close>

definition strtol_sign :: "string \<Rightarrow> bool" where
  "strtol_sign s = (case dropWhile isspace s of [] \<Rightarrow> False | c # _ \<Rightarrow> c = CHR ''-'')"

definition strtol_body :: "string \<Rightarrow> string" where
  "strtol_body s =
     (case dropWhile isspace s of
        [] \<Rightarrow> []
      | c # t \<Rightarrow> if c = CHR ''-'' \<or> c = CHR ''+'' then t else c # t)"

text \<open>
  In base 16 a prefix \<open>0x\<close> or \<open>0X\<close> is skipped when a hexadecimal digit follows it
  (otherwise the subject sequence is the \<open>0\<close> alone).
\<close>

definition skip_0x :: "string \<Rightarrow> string" where
  "skip_0x s =
     (case s of
        z # x # h # t \<Rightarrow>
          if z = CHR ''0'' \<and> (x = CHR ''x'' \<or> x = CHR ''X'') \<and> digit_value h < 16
          then h # t else s
      | _ \<Rightarrow> s)"

definition digits_value :: "nat \<Rightarrow> string \<Rightarrow> int" where
  "digits_value base ds = foldl (\<lambda>a c. int base * a + int (digit_value c)) 0 ds"

text \<open>
  \<open>std::stoi(str, nullptr, 16)\<close> (line 56): \<open>strtol\<close> on \<open>str.c_str()\<close> in base 16;
  \<open>std::invalid_argument\<close> when there is no digit to convert, \<open>std::out_of_range\<close>
  when the value is not an \<open>int\<close>. Characters after the digits are ignored.
\<close>

definition stoi16 :: "string \<Rightarrow> abort + int" where
  "stoi16 str =
     (let s = c_str str;
          ds = takeWhile (\<lambda>c. digit_value c < 16) (skip_0x (strtol_body s));
          v = (if strtol_sign s then - digits_value 16 ds else digits_value 16 ds)
      in if ds = [] then Inl (invalid_argument ''stoi'')
         else if v < INT_MIN \<or> INT_MAX < v then Inl (out_of_range ''stoi'')
         else Inr v)"

text \<open>
  \<open>atoi(s)\<close> (line 75) is \<open>(int) strtol(s, NULL, 10)\<close>: the decimal number at the
  start of \<open>s\<close> after white space and an optional sign, 0 when there is none. A number
  outside \<open>long\<close> is replaced by \<open>LONG_MAX\<close> or \<open>LONG_MIN\<close>, as \<open>strtol\<close> does, and
  the conversion to \<open>int\<close> wraps around: the C standard leaves the result for a number
  that \<open>int\<close> cannot hold undefined, and this is what the C library computes
  (\<open>atoi("4294967297")\<close> is 1, \<open>atoi("2147483648")\<close> is \<open>-2147483648\<close>).
\<close>

definition strtol10 :: "string \<Rightarrow> int" where
  "strtol10 s =
     (let ds = takeWhile (\<lambda>c. digit_value c < 10) (strtol_body s);
          v = (if strtol_sign s then - digits_value 10 ds else digits_value 10 ds)
      in if v < LONG_MIN then LONG_MIN else if LONG_MAX < v then LONG_MAX else v)"

definition atoi :: "string \<Rightarrow> int" where
  "atoi s = long_to_int (strtol10 s)"

subsection \<open>isSchemeValid (lines 40-46) and urlDecode (lines 48-68)\<close>

fun isSchemeValid :: "string \<Rightarrow> bool" where
  "isSchemeValid [] = True"
| "isSchemeValid (c # schemeName) =
     (if \<not> isalpha c \<and> c \<noteq> CHR ''+'' \<and> c \<noteq> CHR ''-'' \<and> c \<noteq> CHR ''.'' then False
      else isSchemeValid schemeName)"

text \<open>
  The loop of \<open>urlDecode\<close> from index \<open>i\<close> on: the first argument is \<open>value\<close> from
  \<open>value[i]\<close>, the second is \<open>decoded\<close>. At a \<open>%\<close> the test \<open>i + 2 >= value.length()\<close>
  holds exactly when fewer than two characters follow it.
\<close>

fun urlDecode_from :: "string \<Rightarrow> string \<Rightarrow> abort + string" where
  "urlDecode_from [] decoded = Inr decoded"
| "urlDecode_from (c # rest) decoded =
     (if c = CHR ''%'' then
        (case rest of
           h1 # h2 # rest' \<Rightarrow>
             (case stoi16 [h1, h2] of
                Inl e \<Rightarrow> Inl e
              | Inr hexValue \<Rightarrow> urlDecode_from rest' (decoded @ [char_of hexValue]))
         | _ \<Rightarrow> Inl (invalid_argument ''Invalid URL encoding''))
      else if c = CHR ''+'' then urlDecode_from rest (decoded @ '' '')
      else urlDecode_from rest (decoded @ [c]))"

definition urlDecode :: "string \<Rightarrow> abort + string" where
  "urlDecode v = urlDecode_from v []"

subsection \<open>The result record\<close>

text \<open>
  Modelled from the spec: the enumeration \<open>LUrlParserError\<close> is declared in
  LUrlParser/LUrlParser.h, which is not among the sources. These are the codes that the
  source file returns, which are also the ones of section 4.1 of the specification;
  \<open>LUrlParserError_Ok\<close> marks success.
\<close>

datatype LUrlParserError =
    LUrlParserError_Ok
  | LUrlParserError_NoUrlCharacter
  | LUrlParserError_InvalidSchemeName
  | LUrlParserError_NoDoubleSlash
  | LUrlParserError_NoAtSign
  | LUrlParserError_NoSlash

text \<open>
  Modelled from the spec: the class \<open>ParseURL\<close> is declared in the missing header too.
  The record has the members that the source file assigns, under their names there
  without the trailing underscore (\<open>scheme_\<close> is \<open>scheme\<close>, and so on); they are the
  attributes of section 3 of the specification. \<open>url_parameters\<close> is the container
  written by \<open>result->url_parameters_[key] = ...\<close> on line 263: a map from keys to
  values, a later write to a key replacing the earlier one.
\<close>

record ParseURL =
  scheme :: string
  userName :: string
  password :: string
  host :: string
  port :: string
  path :: string
  query :: string
  url_parameters :: "string \<rightharpoonup> string"
  fragment :: string
  errorCode :: LUrlParserError

text \<open>
  Modelled from the spec: the constructor \<open>ParseURL(LUrlParserError)\<close> of the missing
  header LUrlParser.h. It stores the error code; every string member and the parameter
  map are default-constructed, that is empty (the spec's data model: an error result
  carries no component).
\<close>

definition ParseURL_ctor :: "LUrlParserError \<Rightarrow> ParseURL" where
  "ParseURL_ctor e =
     \<lparr> scheme = [], userName = [], password = [], host = [], port = [], path = [],
       query = [], url_parameters = Map.empty, fragment = [], errorCode = e \<rparr>"

text \<open>
  Modelled from the spec: \<open>isValid()\<close>, defined in the missing header and called on
  line 73, holds when the error code is \<open>Ok\<close> (section 9 of the specification).
\<close>

definition isValid :: "ParseURL \<Rightarrow> bool" where
  "isValid r = (errorCode r = LUrlParserError_Ok)"

text \<open>
  \<open>getPort\<close> (lines 72-82). \<open>None\<close> is the return value \<open>false\<close>, \<open>Some p\<close> is
  \<open>true\<close> with the number \<open>p\<close> written to \<open>*outPort\<close>.
\<close>

definition getPort :: "ParseURL \<Rightarrow> int option" where
  "getPort r =
     (if \<not> isValid r then None
      else let p = atoi (c_str (port r))
           in if p \<le> 0 \<or> p > 65535 then None else Some p)"

subsection \<open>String streams (lines 254-264)\<close>

text \<open>
  A \<open>std::stringstream\<close> that is only read: the characters not yet extracted and the
  two state bits that \<open>std::getline\<close> sets.
\<close>

record sstream =
  unread :: string
  eofbit :: bool
  failbit :: bool

definition stringstream :: "string \<Rightarrow> sstream" where
  "stringstream s = \<lparr> unread = s, eofbit = False, failbit = False \<rparr>"

text \<open>
  \<open>std::getline(is, str, delim)\<close>. When the stream is not \<open>good()\<close> the sentry fails:
  \<open>failbit\<close> is set and \<open>str\<close> is left as it was. Otherwise \<open>str\<close> is erased and
  characters are moved to it up to the delimiter, which is extracted and dropped, or up
  to the end of the stream, which sets \<open>eofbit\<close>; \<open>failbit\<close> is set when nothing at all
  was extracted.
\<close>

definition getline :: "sstream \<Rightarrow> string \<Rightarrow> char \<Rightarrow> sstream \<times> string" where
  "getline is str delim =
     (if eofbit is \<or> failbit is then (is\<lparr> failbit := True \<rparr>, str)
      else
        let tok = takeWhile (\<lambda>c. c \<noteq> delim) (unread is) in
        case dropWhile (\<lambda>c. c \<noteq> delim) (unread is) of
          [] \<Rightarrow> (\<lparr> unread = [], eofbit = True, failbit = (tok = []) \<rparr>, tok)
        | d # rest \<Rightarrow> (\<lparr> unread = rest, eofbit = False, failbit = False \<rparr>, tok))"

text \<open>
  The loop of lines 258-264. \<open>key_value\<close>, \<open>key\<close> and \<open>value\<close> are declared before
  the loop (lines 254-256), so each keeps its content from one round to the next.
  An exception of \<open>urlDecode\<close> leaves the loop and \<open>parseURL\<close>.
\<close>

function read_parameters ::
  "sstream \<Rightarrow> string \<Rightarrow> string \<Rightarrow> string \<Rightarrow> (string \<rightharpoonup> string) \<Rightarrow> abort + (string \<rightharpoonup> string)"
where
  "read_parameters ss key_value key val params =
     (let (ss', key_value') = getline ss key_value CHR ''&'' in
      if failbit ss' then Inr params
      else
        let ss2 = stringstream key_value';
            (ss2', key') = getline ss2 key CHR ''='';
            (ss2'', val') = getline ss2' val CHR ''&''
        in case urlDecode val' of
             Inl e \<Rightarrow> Inl e
           | Inr decoded \<Rightarrow> read_parameters ss' key_value' key' val' (params(key' \<mapsto> decoded)))"
  by pat_completeness auto

text \<open>
  Each round of the loop that goes on has taken characters from the stream, or has set
  its \<open>eofbit\<close>: the loop ends.
\<close>

lemma getline_good_decreases:
  assumes "getline ss str delim = (ss', tok)" and "\<not> failbit ss'"
  shows "length (unread ss') + (if eofbit ss' \<or> failbit ss' then 0 else 1)
       < length (unread ss) + (if eofbit ss \<or> failbit ss then 0 else 1)"
proof (cases "eofbit ss \<or> failbit ss")
  case True
  with assms show ?thesis by (auto simp: getline_def)
next
  case False
  show ?thesis
  proof (cases "dropWhile (\<lambda>c. c \<noteq> delim) (unread ss)")
    case Nil
    with False assms show ?thesis by (auto simp: getline_def Let_def)
  next
    case (Cons d rest)
    have "length (dropWhile (\<lambda>c. c \<noteq> delim) (unread ss)) \<le> length (unread ss)"
      by (rule length_dropWhile_le)
    with Cons False assms show ?thesis by (auto simp: getline_def Let_def)
  qed
qed

termination read_parameters
proof (relation "measure (\<lambda>(ss, key_value, key, val, params).
         length (unread ss) + (if eofbit ss \<or> failbit ss then 0 else 1))", goal_cases)
  case 1
  show ?case by simp
next
  case (2 ss key_value key val params x xa y)
  then have "getline ss key_value CHR ''&'' = (xa, y)" and "\<not> failbit xa"
    by simp_all
  from getline_good_decreases [OF this] show ?case by simp
qed

declare read_parameters.simps [simp del]

subsection \<open>parseURL (lines 85-287), one definition per step of the scan\<close>

text \<open>
  Lines 99-107, the end of the scheme: the offset of \<open>localString\<close> from
  \<open>currentString\<close>. With a \<open>:\<close> in the text it is the first \<open>:\<close>. Without one the
  source computes \<open>strchr(currentString, '/') - 1\<close>:
  \<^item> first \<open>/\<close> at offset \<open>j + 1\<close>: the offset \<open>j\<close>, one before the \<open>/\<close>;
  \<^item> first \<open>/\<close> at offset 0: the address one before the buffer, so line 107 asks for a
    string of length \<open>(size_t)(-1)\<close> and the constructor throws \<open>std::length_error\<close>;
  \<^item> no \<open>/\<close> either: \<open>strchr\<close> returns the null pointer and the source subtracts 1
    from it. The arithmetic is undefined in C++; on a flat address space it gives the
    address \<open>-1\<close>, which is not null, so the test \<open>!localString\<close> of line 101 is false and
    line 107 again asks for a string of negative difference converted to \<open>size_t\<close>:
    \<open>std::length_error\<close>.
\<close>

definition scheme_end :: "string \<Rightarrow> abort + nat" where
  "scheme_end currentString =
     (case strchr currentString CHR '':'' of
        Some i \<Rightarrow> Inr i
      | None \<Rightarrow>
          (case strchr currentString CHR ''/'' of
             Some (Suc j) \<Rightarrow> Inr j
           | Some 0 \<Rightarrow> Inl length_error
           | None \<Rightarrow> Inl length_error))"

text \<open>Lines 130-146: is there an \<open>@\<close> before the first \<open>/\<close>?\<close>

fun hasUserName :: "string \<Rightarrow> bool" where
  "hasUserName [] = False"
| "hasUserName (c # localString) =
     (if c = CHR ''@'' then True
      else if c = CHR ''/'' then False
      else hasUserName localString)"

text \<open>
  Lines 151-181, user name and password. The result is the record and the cursor after
  the \<open>@\<close>, or the error code of line 177.
\<close>

definition read_password :: "ParseURL \<Rightarrow> string \<Rightarrow> ParseURL \<times> string" where
  "read_password result currentString =
     (case currentString of
        [] \<Rightarrow> (result, currentString)
      | c # rest \<Rightarrow>
          if c = CHR '':''
          then (result\<lparr> password := takeWhile (\<lambda>c. c \<noteq> CHR ''@'') rest \<rparr>,
                dropWhile (\<lambda>c. c \<noteq> CHR ''@'') rest)
          else (result, currentString))"

definition read_user :: "ParseURL \<Rightarrow> string \<Rightarrow> LUrlParserError + ParseURL \<times> string" where
  "read_user result currentString =
     (if hasUserName currentString then
        (case read_password
                (result\<lparr> userName := takeWhile (\<lambda>c. c \<noteq> CHR '':'' \<and> c \<noteq> CHR ''@'') currentString \<rparr>)
                (dropWhile (\<lambda>c. c \<noteq> CHR '':'' \<and> c \<noteq> CHR ''@'') currentString) of
           (result', []) \<Rightarrow> Inl LUrlParserError_NoAtSign
         | (result', c # rest) \<Rightarrow>
             if c \<noteq> CHR ''@'' then Inl LUrlParserError_NoAtSign else Inr (result', rest))
      else Inr (result, currentString))"

text \<open>
  Lines 183-203, the host: the text scanned and the cursor after it. With a bracket the
  scan ends after the first \<open>]\<close>, without one at the first \<open>:\<close> or \<open>/\<close>, and in both
  cases at the end of the string.
\<close>

fun scan_host :: "bool \<Rightarrow> string \<Rightarrow> string \<times> string" where
  "scan_host bHasBracket [] = ([], [])"
| "scan_host bHasBracket (c # localString) =
     (if bHasBracket \<and> c = CHR '']'' then ([c], localString)
      else if \<not> bHasBracket \<and> (c = CHR '':'' \<or> c = CHR ''/'') then ([], c # localString)
      else (case scan_host bHasBracket localString of (h, rest) \<Rightarrow> (c # h, rest)))"

definition read_host :: "ParseURL \<Rightarrow> string \<Rightarrow> ParseURL \<times> string" where
  "read_host result currentString =
     (let bHasBracket = (case currentString of [] \<Rightarrow> False | c # _ \<Rightarrow> c = CHR ''['')
      in case scan_host bHasBracket currentString of
           (h, rest) \<Rightarrow> (result\<lparr> host := h \<rparr>, rest))"

text \<open>Lines 205-217, the port: the text between a \<open>:\<close> and the next \<open>/\<close>.\<close>

definition read_port :: "ParseURL \<Rightarrow> string \<Rightarrow> ParseURL \<times> string" where
  "read_port result currentString =
     (case currentString of
        [] \<Rightarrow> (result, currentString)
      | c # rest \<Rightarrow>
          if c = CHR '':''
          then (result\<lparr> port := takeWhile (\<lambda>c. c \<noteq> CHR ''/'') rest \<rparr>,
                dropWhile (\<lambda>c. c \<noteq> CHR ''/'') rest)
          else (result, currentString))"

text \<open>Lines 242-267, the query and its parameters.\<close>

definition read_query :: "ParseURL \<Rightarrow> string \<Rightarrow> abort + ParseURL \<times> string" where
  "read_query result currentString =
     (case currentString of
        [] \<Rightarrow> Inr (result, currentString)
      | c # rest \<Rightarrow>
          if c = CHR ''?'' then
            (let q = takeWhile (\<lambda>c. c \<noteq> CHR ''#'') rest in
             case read_parameters (stringstream q) [] [] [] (url_parameters result) of
               Inl e \<Rightarrow> Inl e
             | Inr params \<Rightarrow>
                 Inr (result\<lparr> query := q, url_parameters := params \<rparr>,
                      dropWhile (\<lambda>c. c \<noteq> CHR ''#'') rest))
          else Inr (result, currentString))"

text \<open>Lines 269-282, the fragment: everything after a \<open>#\<close>.\<close>

definition read_fragment :: "ParseURL \<Rightarrow> string \<Rightarrow> ParseURL \<times> string" where
  "read_fragment result currentString =
     (case currentString of
        [] \<Rightarrow> (result, currentString)
      | c # rest \<Rightarrow>
          if c = CHR ''#'' then (result\<lparr> fragment := rest \<rparr>, [])
          else (result, currentString))"

text \<open>
  Lines 219-286: the end of the string after the authority is a success; otherwise a
  \<open>/\<close> must follow, then the path up to \<open>#\<close> or \<open>?\<close>, the query and the fragment.
\<close>

definition read_path :: "ParseURL \<Rightarrow> string \<Rightarrow> abort + ParseURL" where
  "read_path result currentString =
     (case currentString of
        [] \<Rightarrow> Inr (result\<lparr> errorCode := LUrlParserError_Ok \<rparr>)
      | c # rest \<Rightarrow>
          if c \<noteq> CHR ''/'' then Inr (ParseURL_ctor LUrlParserError_NoSlash)
          else
            (case read_query
                    (result\<lparr> path := takeWhile (\<lambda>c. c \<noteq> CHR ''#'' \<and> c \<noteq> CHR ''?'') rest \<rparr>)
                    (dropWhile (\<lambda>c. c \<noteq> CHR ''#'' \<and> c \<noteq> CHR ''?'') rest) of
               Inl e \<Rightarrow> Inl e
             | Inr (result', currentString') \<Rightarrow>
                 Inr ((fst (read_fragment result' currentString'))
                        \<lparr> errorCode := LUrlParserError_Ok \<rparr>)))"

text \<open>Lines 125-217: the two slashes, then credentials, host and port.\<close>

definition read_authority :: "ParseURL \<Rightarrow> string \<Rightarrow> abort + ParseURL" where
  "read_authority result currentString =
     (case currentString of
        [] \<Rightarrow> Inr (ParseURL_ctor LUrlParserError_NoDoubleSlash)
      | a # t \<Rightarrow>
          if a \<noteq> CHR ''/'' then Inr (ParseURL_ctor LUrlParserError_NoDoubleSlash)
          else
            (case t of
               [] \<Rightarrow> Inr (ParseURL_ctor LUrlParserError_NoDoubleSlash)
             | b # currentString' \<Rightarrow>
                 if b \<noteq> CHR ''/'' then Inr (ParseURL_ctor LUrlParserError_NoDoubleSlash)
                 else
                   (case read_user result currentString' of
                      Inl e \<Rightarrow> Inr (ParseURL_ctor e)
                    | Inr (result1, cur1) \<Rightarrow>
                        (case read_host result1 cur1 of
                           (result2, cur2) \<Rightarrow>
                             (case read_port result2 cur2 of
                                (result3, cur3) \<Rightarrow> read_path result3 cur3)))))"

text \<open>
  The whole function. \<open>new ParseURL()\<close> on line 86 starts with empty members; its
  error code is assigned on lines 221 and 284, the two places that return \<open>result\<close>,
  and read nowhere before, so the model creates the record with the code it is
  returned with. Every other return is a fresh \<open>ParseURL(error)\<close>.
\<close>

definition parseURL :: "string \<Rightarrow> abort + ParseURL" where
  "parseURL URL =
     (let currentString = c_str URL in
      case scheme_end currentString of
        Inl e \<Rightarrow> Inl e
      | Inr n \<Rightarrow>
          if \<not> isSchemeValid (take n currentString)
          then Inr (ParseURL_ctor LUrlParserError_InvalidSchemeName)
          else read_authority
                 ((ParseURL_ctor LUrlParserError_Ok)\<lparr> scheme := map tolower (take n currentString) \<rparr>)
                 (drop (Suc n) currentString))"

section \<open>What the specification says, for comparison with the code\<close>

subsection \<open>The percent-decoder of the specification (section 4.2)\<close>

text \<open>
  The following definitions are written from the words of the specification, not from
  the source. "\<open>%\<close> must be followed by exactly two hexadecimal digits, decoded as one
  byte appended to the output": the digits and their values.
\<close>

definition hex_digit :: "char \<Rightarrow> nat option" where
  "hex_digit c =
     (if c \<in> set ''0123456789'' then Some (of_char c - 48)
      else if c \<in> set ''abcdef'' then Some (of_char c - 87)
      else if c \<in> set ''ABCDEF'' then Some (of_char c - 55)
      else None)"

definition InvalidEncoding :: abort where
  "InvalidEncoding = invalid_argument ''Invalid URL encoding''"

definition emit :: "char \<Rightarrow> (abort + string) option \<Rightarrow> (abort + string) option" where
  "emit c rest = map_option (map_sum id ((#) c)) rest"

text \<open>
  "Scans left-to-right; \<open>+\<close> becomes space; [...] if fewer than two characters remain
  after \<open>%\<close>, fail with \<open>InvalidEncoding\<close>; any other character is copied
  unchanged." The specification does not say what the decoder does at a \<open>%\<close> that is
  followed by two characters which are not both hexadecimal digits: there the result
  is \<open>None\<close>, and so is the result of a value that has such a place further on.
\<close>

fun percent_decode_spec :: "string \<Rightarrow> (abort + string) option" where
  "percent_decode_spec [] = Some (Inr [])"
| "percent_decode_spec (c # cs) =
     (if c = CHR ''+'' then emit CHR '' '' (percent_decode_spec cs)
      else if c = CHR ''%'' then
        (case cs of
           h1 # h2 # cs' \<Rightarrow>
             (case (hex_digit h1, hex_digit h2) of
                (Some d1, Some d2) \<Rightarrow> emit (char_of (16 * d1 + d2)) (percent_decode_spec cs')
              | _ \<Rightarrow> None)
         | _ \<Rightarrow> Some (Inl InvalidEncoding))
      else emit c (percent_decode_spec cs))"

text \<open>
  Fewer than two characters remain after a \<open>%\<close>: a \<open>%\<close> is the last character of
  the value or the one before the last.
\<close>

definition truncated_escape :: "string \<Rightarrow> bool" where
  "truncated_escape v = (CHR ''%'' \<in> set (drop (length v - 2) v))"

subsection \<open>A complete scan (section 3, the invariant of the result record)\<close>







section \<open>Properties of the scanner\<close>

subsection \<open>Evaluating the scanner on a given string\<close>

lemmas scan_simps =
  parseURL_def c_str_def scheme_end_def read_authority_def read_user_def read_password_def
  read_host_def read_port_def read_path_def read_query_def read_fragment_def ParseURL_ctor_def
  isalpha_def isupper_def islower_def tolower_def

lemmas query_simps =
  read_parameters.simps getline_def stringstream_def urlDecode_def

subsection \<open>The error codes that parseURL returns\<close>

lemma dropWhile_neq_mem: "x \<in> set xs \<Longrightarrow> \<exists>ys. dropWhile (\<lambda>c. c \<noteq> x) xs = x # ys"
  by (induction xs) auto

lemma hasUserName_at: "hasUserName cs \<Longrightarrow> CHR ''@'' \<in> set cs"
  by (induction cs) (auto split: if_splits)

text \<open>
  When the lookahead has seen an \<open>@\<close>, the user name scan stops at that \<open>@\<close> or at a
  \<open>:\<close> before it, and the password scan then stops at the \<open>@\<close>: the test of line 175
  never fails.
\<close>

lemma read_user_no_error: "read_user result cur \<noteq> Inl e"
proof (cases "hasUserName cur")
  case False
  then show ?thesis by (simp add: read_user_def)
next
  case True
  let ?P = "\<lambda>c. c \<noteq> CHR '':'' \<and> c \<noteq> CHR ''@''"
  from True have at: "CHR ''@'' \<in> set cur" by (rule hasUserName_at)
  have "CHR ''@'' \<notin> set (takeWhile ?P cur)"
    by (auto dest: set_takeWhileD)
  with at have in_drop: "CHR ''@'' \<in> set (dropWhile ?P cur)"
    by (metis UnE set_append takeWhile_dropWhile_id)
  then obtain c rest where dw: "dropWhile ?P cur = c # rest"
    by (cases "dropWhile ?P cur") auto
  have "\<not> ?P c" using dw hd_dropWhile [of ?P cur] by (metis list.distinct(1) list.sel(1))
  then consider "c = CHR '':''" | "c = CHR ''@''" by auto
  then show ?thesis
  proof cases
    case 2
    with True dw show ?thesis by (simp add: read_user_def read_password_def)
  next
    case 1
    with in_drop dw have "CHR ''@'' \<in> set rest" by simp
    from dropWhile_neq_mem [OF this]
    obtain rest' where "dropWhile (\<lambda>c. c \<noteq> CHR ''@'') rest = CHR ''@'' # rest'" ..
    with True dw 1 show ?thesis by (simp add: read_user_def read_password_def)
  qed
qed

lemma read_path_errorCode:
  "read_path result cur = Inr r \<Longrightarrow>
     errorCode r = LUrlParserError_Ok \<or> r = ParseURL_ctor LUrlParserError_NoSlash"
  by (auto simp: read_path_def split: list.splits if_splits sum.splits prod.splits)

lemma read_authority_cases:
  assumes "read_authority result cur = Inr r"
  shows "r = ParseURL_ctor LUrlParserError_NoDoubleSlash \<or>
         (\<exists>cur0 result1 cur1 result2 cur2 result3 cur3.
            cur = CHR ''/'' # CHR ''/'' # cur0 \<and>
            read_user result cur0 = Inr (result1, cur1) \<and>
            read_host result1 cur1 = (result2, cur2) \<and>
            read_port result2 cur2 = (result3, cur3) \<and>
            read_path result3 cur3 = Inr r)"
proof (cases cur)
  case Nil
  with assms show ?thesis by (simp add: read_authority_def)
next
  case c1: (Cons a t)
  show ?thesis
  proof (cases t)
    case Nil
    with c1 assms show ?thesis by (simp add: read_authority_def split: if_splits)
  next
    case c2: (Cons b cur0)
    show ?thesis
    proof (cases "a = CHR ''/'' \<and> b = CHR ''/''")
      case False
      with c1 c2 assms show ?thesis by (auto simp: read_authority_def split: if_splits)
    next
      case True
      obtain result1 cur1 where u: "read_user result cur0 = Inr (result1, cur1)"
        using read_user_no_error [of result cur0] by (cases "read_user result cur0") auto
      obtain result2 cur2 where h: "read_host result1 cur1 = (result2, cur2)"
        by (cases "read_host result1 cur1") auto
      obtain result3 cur3 where p: "read_port result2 cur2 = (result3, cur3)"
        by (cases "read_port result2 cur2") auto
      from assms c1 c2 True u h p have "read_path result3 cur3 = Inr r"
        by (simp add: read_authority_def)
      with c1 c2 True u h p show ?thesis by blast
    qed
  qed
qed

lemma parseURL_cases:
  assumes "parseURL URL = Inr r"
  shows "\<exists>n. scheme_end (c_str URL) = Inr n \<and>
           (if isSchemeValid (take n (c_str URL))
            then read_authority
                   ((ParseURL_ctor LUrlParserError_Ok)\<lparr> scheme := map tolower (take n (c_str URL)) \<rparr>)
                   (drop (Suc n) (c_str URL)) = Inr r
            else r = ParseURL_ctor LUrlParserError_InvalidSchemeName)"
  using assms by (cases "scheme_end (c_str URL)") (auto simp: parseURL_def Let_def)

lemma parseURL_errorCode:
  assumes "parseURL URL = Inr r"
  shows "errorCode r = LUrlParserError_Ok \<or> r = ParseURL_ctor LUrlParserError_NoSlash
       \<or> r = ParseURL_ctor LUrlParserError_NoDoubleSlash
       \<or> r = ParseURL_ctor LUrlParserError_InvalidSchemeName"
proof -
  from parseURL_cases [OF assms] obtain n where
    n: "if isSchemeValid (take n (c_str URL))
        then read_authority
               ((ParseURL_ctor LUrlParserError_Ok)\<lparr> scheme := map tolower (take n (c_str URL)) \<rparr>)
               (drop (Suc n) (c_str URL)) = Inr r
        else r = ParseURL_ctor LUrlParserError_InvalidSchemeName"
    by blast
  show ?thesis
  proof (cases "isSchemeValid (take n (c_str URL))")
    case False
    with n show ?thesis by simp
  next
    case True
    with n have "read_authority
               ((ParseURL_ctor LUrlParserError_Ok)\<lparr> scheme := map tolower (take n (c_str URL)) \<rparr>)
               (drop (Suc n) (c_str URL)) = Inr r" by simp
    from read_authority_cases [OF this] show ?thesis
      by (auto dest: read_path_errorCode)
  qed
qed

text \<open>
  Claim C10. For every input string, \<open>parseURL\<close> never returns the error code
  \<open>NoAtSign\<close>: the credentials are read only after the lookahead found an \<open>@\<close> before
  any \<open>/\<close>, and the user name scan followed by the optional password scan leaves the
  cursor on that \<open>@\<close>, so the failing branch of line 175 is unreachable.
\<close>

theorem parseURL_never_NoAtSign:
  "parseURL URL = Inr r \<Longrightarrow> errorCode r \<noteq> LUrlParserError_NoAtSign"
  by (auto dest!: parseURL_errorCode simp: ParseURL_ctor_def)

theorem parseURL_never_NoAtSign_witness:
  "parseURL ''http://u:p@h/'' =
     Inr ((ParseURL_ctor LUrlParserError_Ok)
            \<lparr> scheme := ''http'', userName := ''u'', password := ''p'', host := ''h'' \<rparr>) \<and>
   errorCode ((ParseURL_ctor LUrlParserError_Ok)
            \<lparr> scheme := ''http'', userName := ''u'', password := ''p'', host := ''h'' \<rparr>)
     \<noteq> LUrlParserError_NoAtSign"
proof -
  have r: "parseURL ''http://u:p@h/'' =
     Inr ((ParseURL_ctor LUrlParserError_Ok)
            \<lparr> scheme := ''http'', userName := ''u'', password := ''p'', host := ''h'' \<rparr>)"
    by (simp add: scan_simps)
  from parseURL_never_NoAtSign [OF r] r show ?thesis by simp
qed

subsection \<open>Inputs on which the code leaves the documented behaviour\<close>

text \<open>
  Claim C2. For every input string that contains neither a \<open>:\<close> nor a \<open>/\<close>,
  \<open>parseURL\<close> fails with error code \<open>NoUrlCharacter\<close>. The code does not: on
  \<open>abc\<close> line 99 subtracts 1 from the null pointer that \<open>strchr\<close> returned, the
  test of line 101 sees a pointer that is not null, and line 107 throws.
\<close>

theorem parseURL_no_boundary_character:
  "parseURL ''abc'' = Inl length_error"
  by (simp add: scan_simps)

text \<open>
  The same for every string without \<open>:\<close> and \<open>/\<close>, and no input at all is answered
  with \<open>NoUrlCharacter\<close>.
\<close>

lemma strchr_None: "strchr cs c = None \<longleftrightarrow> c \<notin> set cs"
  by (induction cs) auto

lemma parseURL_without_colon_slash:
  assumes "CHR '':'' \<notin> set (c_str URL)" and "CHR ''/'' \<notin> set (c_str URL)"
  shows "parseURL URL = Inl length_error"
  using assms by (simp add: parseURL_def scheme_end_def strchr_None [symmetric])

lemma parseURL_never_NoUrlCharacter:
  "parseURL URL = Inr r \<Longrightarrow> errorCode r \<noteq> LUrlParserError_NoUrlCharacter"
  by (auto dest!: parseURL_errorCode simp: ParseURL_ctor_def)

text \<open>
  Claim C6. For every input string that contains no \<open>:\<close> but contains a \<open>/\<close>, the
  scheme boundary is the position one before the first \<open>/\<close>: the scheme candidate is
  the prefix of the input that ends just before that position, and scanning resumes at
  the first \<open>/\<close> itself. The code has no such position when the first \<open>/\<close> is the
  first character, as in the protocol-relative \<open>//host/x\<close>: line 99 yields the address
  before the buffer and line 107 throws instead of taking a scheme candidate.
\<close>

theorem parseURL_slash_first:
  "parseURL ''//host/x'' = Inl length_error"
  by (simp add: scan_simps)

text \<open>
  Claim C4. For every input string on which \<open>parseURL\<close> succeeds, the scheme of the
  result is a non-empty string (the comment of line 92 gives the scheme as
  \<open>[a-z\+\-\.]+\<close>). The code accepts the empty scheme: \<open>isSchemeValid\<close> has nothing
  to reject in an empty candidate, and \<open>://host\<close> parses with success.
\<close>

theorem parseURL_empty_scheme:
  "parseURL ''://host'' = Inr ((ParseURL_ctor LUrlParserError_Ok)\<lparr> host := ''host'' \<rparr>) \<and>
   scheme ((ParseURL_ctor LUrlParserError_Ok)\<lparr> host := ''host'' \<rparr>) = [] \<and>
   errorCode ((ParseURL_ctor LUrlParserError_Ok)\<lparr> host := ''host'' \<rparr>) = LUrlParserError_Ok"
  by (simp add: scan_simps)

text \<open>
  Claim C3. For every successfully parsed input whose query string contains a pair with
  no \<open>=\<close>, the value stored in the query parameters for that pair's key is the empty
  string. The code stores the value of the pair before it: after \<open>getline\<close> has read the
  key up to the end of the pair the stream is at its end, the second \<open>getline\<close> fails
  without touching \<open>value\<close>, and \<open>value\<close>, declared outside the loop, still holds
  the previous pair's text. In \<open>a=1&b\<close> the key \<open>b\<close> gets the value \<open>1\<close>.
\<close>

theorem parseURL_pair_without_equals:
  "parseURL ''http://h/p?a=1&b'' =
     Inr ((ParseURL_ctor LUrlParserError_Ok)
            \<lparr> scheme := ''http'', host := ''h'', path := ''p'', query := ''a=1&b'',
              url_parameters := [''a'' \<mapsto> ''1'', ''b'' \<mapsto> ''1''] \<rparr>) \<and>
   url_parameters
     ((ParseURL_ctor LUrlParserError_Ok)
            \<lparr> scheme := ''http'', host := ''h'', path := ''p'', query := ''a=1&b'',
              url_parameters := [''a'' \<mapsto> ''1'', ''b'' \<mapsto> ''1''] \<rparr>) ''b'' = Some ''1''"
  by (simp add: scan_simps query_simps)

subsection \<open>What each step of the scan consumes and writes\<close>

lemma hd_dropWhile_cases: "dropWhile P xs = [] \<or> (\<exists>c rest. dropWhile P xs = c # rest \<and> \<not> P c)"
proof (cases "dropWhile P xs")
  case Nil
  then show ?thesis by simp
next
  case (Cons c rest)
  with hd_dropWhile [of P xs] have "\<not> P c" by simp
  with Cons show ?thesis by simp
qed

lemma scan_host_append: "scan_host b cs = (h, rest) \<Longrightarrow> cs = h @ rest"
  by (induction cs arbitrary: h rest) (auto split: if_splits prod.splits)

lemma read_host_eq:
  assumes "read_host result cur = (result', cur')"
  shows "\<exists>h. result' = result\<lparr> host := h \<rparr> \<and> cur = h @ cur'"
  using assms by (auto simp: read_host_def Let_def split: prod.splits dest: scan_host_append)

lemma read_port_eq:
  assumes "read_port result cur = (result', cur')"
  shows "\<exists>p t. result' = result\<lparr> port := p \<rparr> \<and> cur = t @ cur' \<and>
           (t = [] \<and> p = port result \<or> t = CHR '':'' # p)"
proof (cases cur)
  case Nil
  with assms have "result' = result\<lparr> port := port result \<rparr> \<and> cur = [] @ cur'"
    by (simp add: read_port_def)
  then show ?thesis by blast
next
  case (Cons c rest)
  show ?thesis
  proof (cases "c = CHR '':''")
    case False
    with Cons assms have "result' = result\<lparr> port := port result \<rparr> \<and> cur = [] @ cur'"
      by (simp add: read_port_def)
    then show ?thesis by blast
  next
    case True
    let ?p = "takeWhile (\<lambda>c. c \<noteq> CHR ''/'') rest"
    from True Cons assms have "result' = result\<lparr> port := ?p \<rparr> \<and> cur = (CHR '':'' # ?p) @ cur'"
      by (auto simp: read_port_def)
    then show ?thesis by blast
  qed
qed

lemma read_fragment_eq:
  assumes "cur = [] \<or> (\<exists>rest. cur = CHR ''#'' # rest)"
  shows "\<exists>f. fst (read_fragment result cur) = result\<lparr> fragment := f \<rparr> \<and>
           (cur = [] \<and> f = fragment result \<or> cur = CHR ''#'' # f)"
  using assms by (auto simp: read_fragment_def)

lemma read_query_eq:
  assumes "read_query result cur = Inr (result', cur')"
    and "cur = [] \<or> (\<exists>c rest. cur = c # rest \<and> (c = CHR ''#'' \<or> c = CHR ''?''))"
  shows "\<exists>q ps t. result' = result\<lparr> query := q, url_parameters := ps \<rparr> \<and> cur = t @ cur' \<and>
           (t = [] \<and> q = query result \<and> ps = url_parameters result \<or>
            t = CHR ''?'' # q \<and>
            read_parameters (stringstream q) [] [] [] (url_parameters result) = Inr ps) \<and>
           (cur' = [] \<or> (\<exists>rest. cur' = CHR ''#'' # rest))"
proof (cases "\<exists>rest. cur = CHR ''?'' # rest")
  case False
  with assms have "result' = result\<lparr> query := query result, url_parameters := url_parameters result \<rparr>
      \<and> cur = [] @ cur' \<and> (cur' = [] \<or> (\<exists>rest. cur' = CHR ''#'' # rest))"
    by (auto simp: read_query_def)
  then show ?thesis by blast
next
  case True
  then obtain rest where cur: "cur = CHR ''?'' # rest" ..
  let ?q = "takeWhile (\<lambda>c. c \<noteq> CHR ''#'') rest"
  from assms(1) cur obtain ps where
    ps: "read_parameters (stringstream ?q) [] [] [] (url_parameters result) = Inr ps"
    and r': "result' = result\<lparr> query := ?q, url_parameters := ps \<rparr>"
    and c': "cur' = dropWhile (\<lambda>c. c \<noteq> CHR ''#'') rest"
    by (auto simp: read_query_def Let_def split: sum.splits)
  from c' cur have "cur = (CHR ''?'' # ?q) @ cur'" by simp
  moreover from c' hd_dropWhile_cases [of "\<lambda>c. c \<noteq> CHR ''#''" rest]
  have "cur' = [] \<or> (\<exists>rest. cur' = CHR ''#'' # rest)" by auto
  ultimately show ?thesis using ps r' by blast
qed

lemma read_path_Ok:
  assumes "read_path result cur = Inr r" and "errorCode r = LUrlParserError_Ok"
  shows "\<exists>pa q ps f. r = result\<lparr> path := pa, query := q, url_parameters := ps, fragment := f,
                               errorCode := LUrlParserError_Ok \<rparr> \<and>
           (cur = [] \<and> pa = path result \<and> q = query result \<and> ps = url_parameters result \<and>
              f = fragment result \<or>
            (\<exists>qt ft. cur = CHR ''/'' # pa @ qt @ ft \<and>
               (qt = [] \<and> q = query result \<and> ps = url_parameters result \<or>
                qt = CHR ''?'' # q \<and>
                read_parameters (stringstream q) [] [] [] (url_parameters result) = Inr ps) \<and>
               (ft = [] \<and> f = fragment result \<or> ft = CHR ''#'' # f)))"
proof (cases cur)
  case Nil
  with assms have "r = result\<lparr> path := path result, query := query result,
      url_parameters := url_parameters result, fragment := fragment result,
      errorCode := LUrlParserError_Ok \<rparr>"
    by (simp add: read_path_def)
  with Nil show ?thesis by blast
next
  case (Cons c rest)
  let ?P = "\<lambda>c. c \<noteq> CHR ''#'' \<and> c \<noteq> CHR ''?''"
  let ?pa = "takeWhile ?P rest"
  let ?r1 = "result\<lparr> path := ?pa \<rparr>"
  from assms Cons have c: "c = CHR ''/''"
    by (auto simp: read_path_def ParseURL_ctor_def split: if_splits)
  with assms Cons obtain r2 cur2 where
    q: "read_query ?r1 (dropWhile ?P rest) = Inr (r2, cur2)"
    and r: "r = (fst (read_fragment r2 cur2))\<lparr> errorCode := LUrlParserError_Ok \<rparr>"
    by (auto simp: read_path_def split: sum.splits)
  from hd_dropWhile_cases [of ?P rest]
  have "dropWhile ?P rest = [] \<or>
        (\<exists>c rest'. dropWhile ?P rest = c # rest' \<and> (c = CHR ''#'' \<or> c = CHR ''?''))"
    by auto
  from read_query_eq [OF q this] obtain q ps qt where
    r2: "r2 = ?r1\<lparr> query := q, url_parameters := ps \<rparr>"
    and dw: "dropWhile ?P rest = qt @ cur2"
    and qt: "qt = [] \<and> q = query ?r1 \<and> ps = url_parameters ?r1 \<or>
             qt = CHR ''?'' # q \<and>
             read_parameters (stringstream q) [] [] [] (url_parameters ?r1) = Inr ps"
    and cur2: "cur2 = [] \<or> (\<exists>rest. cur2 = CHR ''#'' # rest)"
    by blast
  from read_fragment_eq [OF cur2, of r2] obtain f where
    f: "fst (read_fragment r2 cur2) = r2\<lparr> fragment := f \<rparr>"
    and ft: "cur2 = [] \<and> f = fragment r2 \<or> cur2 = CHR ''#'' # f"
    by blast
  have "rest = ?pa @ dropWhile ?P rest" by simp
  with dw c Cons have cur: "cur = CHR ''/'' # ?pa @ qt @ cur2" by simp
  from r f r2 have req: "r = result\<lparr> path := ?pa, query := q, url_parameters := ps,
      fragment := f, errorCode := LUrlParserError_Ok \<rparr>" by simp
  from qt have qt': "qt = [] \<and> q = query result \<and> ps = url_parameters result \<or>
        qt = CHR ''?'' # q \<and>
        read_parameters (stringstream q) [] [] [] (url_parameters result) = Inr ps" by simp
  from ft r2 have ft': "cur2 = [] \<and> f = fragment result \<or> cur2 = CHR ''#'' # f" by simp
  from req cur qt' ft' show ?thesis by blast
qed

lemma read_user_eq:
  assumes "read_user result cur = Inr (result', cur')"
  shows "\<exists>u p t. result' = result\<lparr> userName := u, password := p \<rparr> \<and> cur = t @ cur' \<and>
           (t = [] \<and> u = userName result \<and> p = password result \<or>
            t = u @ ''@'' \<and> p = password result \<or>
            t = u @ '':'' @ p @ ''@'')"
proof (cases "hasUserName cur")
  case False
  with assms have "result' = result\<lparr> userName := userName result, password := password result \<rparr>
      \<and> cur = [] @ cur'"
    by (simp add: read_user_def)
  then show ?thesis by blast
next
  case True
  let ?P = "\<lambda>c. c \<noteq> CHR '':'' \<and> c \<noteq> CHR ''@''"
  let ?u = "takeWhile ?P cur"
  let ?r1 = "result\<lparr> userName := ?u \<rparr>"
  have split: "cur = ?u @ dropWhile ?P cur" by simp
  show ?thesis
  proof (cases "\<exists>rest. dropWhile ?P cur = CHR '':'' # rest")
    case False
    then have "read_password ?r1 (dropWhile ?P cur) = (?r1, dropWhile ?P cur)"
      by (auto simp: read_password_def split: list.splits)
    with assms True have dw: "dropWhile ?P cur = CHR ''@'' # cur'" and "result' = ?r1"
      by (auto simp: read_user_def split: list.splits if_splits)
    then have "result' = result\<lparr> userName := ?u, password := password result \<rparr>" by simp
    moreover from dw split have "cur = (?u @ ''@'') @ cur'" by simp
    ultimately show ?thesis by blast
  next
    case colon: True
    then obtain rest where dw: "dropWhile ?P cur = CHR '':'' # rest" ..
    let ?p = "takeWhile (\<lambda>c. c \<noteq> CHR ''@'') rest"
    from dw have "read_password ?r1 (dropWhile ?P cur) =
        (?r1\<lparr> password := ?p \<rparr>, dropWhile (\<lambda>c. c \<noteq> CHR ''@'') rest)"
      by (simp add: read_password_def)
    with assms True have dw2: "dropWhile (\<lambda>c. c \<noteq> CHR ''@'') rest = CHR ''@'' # cur'"
      and r': "result' = result\<lparr> userName := ?u, password := ?p \<rparr>"
      by (auto simp: read_user_def split: list.splits if_splits)
    have "rest = ?p @ dropWhile (\<lambda>c. c \<noteq> CHR ''@'') rest" by simp
    with dw2 have "rest = ?p @ CHR ''@'' # cur'" by simp
    with dw split have "cur = (?u @ '':'' @ ?p @ ''@'') @ cur'" by simp
    with r' show ?thesis by blast
  qed
qed

lemma strchr_Some: "strchr cs c = Some i \<Longrightarrow> i < length cs \<and> cs ! i = c \<and> c \<notin> set (take i cs)"
proof (induction cs arbitrary: i)
  case Nil
  then show ?case by simp
next
  case (Cons x xs)
  show ?case
  proof (cases "x = c")
    case True
    with Cons.prems show ?thesis by simp
  next
    case False
    with Cons.prems obtain j where j: "strchr xs c = Some j" and i: "i = Suc j" by auto
    from Cons.IH [OF j] i False show ?thesis by simp
  qed
qed






subsection \<open>The percent-decoder against the specification\<close>

lemma hex_digit_cases:
  assumes "hex_digit c = Some d"
  shows "c \<in> set ''0123456789abcdefABCDEF''"
  using assms by - (rule ccontr, simp add: hex_digit_def)

lemma hex_digit_value:
  assumes "hex_digit c = Some d"
  shows "digit_value c = d \<and> d < 16 \<and> \<not> isspace c \<and> c \<noteq> CHR ''-'' \<and> c \<noteq> CHR ''+''
         \<and> c \<noteq> CHR 0x00 \<and> c \<noteq> CHR ''%''"
proof -
  from hex_digit_cases [OF assms]
  have "c = CHR ''0'' \<or> c = CHR ''1'' \<or> c = CHR ''2'' \<or> c = CHR ''3'' \<or> c = CHR ''4'' \<or>
        c = CHR ''5'' \<or> c = CHR ''6'' \<or> c = CHR ''7'' \<or> c = CHR ''8'' \<or> c = CHR ''9'' \<or>
        c = CHR ''a'' \<or> c = CHR ''b'' \<or> c = CHR ''c'' \<or> c = CHR ''d'' \<or> c = CHR ''e'' \<or>
        c = CHR ''f'' \<or> c = CHR ''A'' \<or> c = CHR ''B'' \<or> c = CHR ''C'' \<or> c = CHR ''D'' \<or>
        c = CHR ''E'' \<or> c = CHR ''F''"
    by simp
  then show ?thesis
    using assms
    by (elim disjE)
       (simp_all add: hex_digit_def digit_value_def isspace_def islower_def isupper_def)
qed

lemma stoi16_hex:
  assumes "hex_digit h1 = Some d1" and "hex_digit h2 = Some d2"
  shows "stoi16 [h1, h2] = Inr (int (16 * d1 + d2))"
proof -
  note a = hex_digit_value [OF assms(1)] and b = hex_digit_value [OF assms(2)]
  from a b have cs: "c_str [h1, h2] = [h1, h2]" by (simp add: c_str_def)
  from a have body: "strtol_body [h1, h2] = [h1, h2]" and sign: "\<not> strtol_sign [h1, h2]"
    by (simp_all add: strtol_body_def strtol_sign_def)
  have skip: "skip_0x [h1, h2] = [h1, h2]" by (simp add: skip_0x_def)
  from a b have ds: "takeWhile (\<lambda>c. digit_value c < 16) [h1, h2] = [h1, h2]" by simp
  from a b have v: "digits_value 16 [h1, h2] = int (16 * d1 + d2)"
    by (simp add: digits_value_def)
  from a b have "int (16 * d1 + d2) \<le> 255" by simp
  then have range: "\<not> (int (16 * d1 + d2) < INT_MIN \<or> INT_MAX < int (16 * d1 + d2))"
    by (simp add: INT_MIN_def INT_MAX_def)
  show ?thesis
    unfolding stoi16_def Let_def cs body skip ds v using sign range by simp
qed

lemma urlDecode_from_append:
  "urlDecode_from v (acc @ acc') = map_sum id ((@) acc) (urlDecode_from v acc')"
proof (induction v acc' arbitrary: acc rule: urlDecode_from.induct)
  case (1 decoded)
  show ?case by simp
next
  case (2 c rest decoded)
  show ?case
  proof (cases "c = CHR ''%''")
    case False
    with "2.IH"(2,3) [of acc] show ?thesis by simp
  next
    case True
    show ?thesis
    proof (cases rest)
      case Nil
      with True show ?thesis by simp
    next
      case c1: (Cons h1 t)
      show ?thesis
      proof (cases t)
        case Nil
        with True c1 show ?thesis by simp
      next
        case c2: (Cons h2 rest')
        show ?thesis
        proof (cases "stoi16 [h1, h2]")
          case (Inl e)
          with True c1 c2 show ?thesis by simp
        next
          case (Inr hexValue)
          from "2.IH"(1) [OF True c1 c2 Inr, of acc] True c1 c2 Inr show ?thesis by simp
        qed
      qed
    qed
  qed
qed

lemma urlDecode_from_single:
  "urlDecode_from v [x] = map_sum id ((#) x) (urlDecode_from v [])"
proof -
  have "(@) [x] = (#) x" by (rule ext) simp
  with urlDecode_from_append [of v "[x]" "[]"] show ?thesis by simp
qed

lemma emit_Some:
  "emit c rest = Some res \<longleftrightarrow> (\<exists>res'. rest = Some res' \<and> res = map_sum id ((#) c) res')"
  by (auto simp: emit_def)

lemma urlDecode_from_spec:
  "percent_decode_spec v = Some res \<Longrightarrow> urlDecode_from v [] = res"
proof (induction v arbitrary: res rule: percent_decode_spec.induct)
  case 1
  then show ?case by simp
next
  case (2 c cs)
  show ?case
  proof (cases "c = CHR ''%''")
    case False
    show ?thesis
    proof (cases "c = CHR ''+''")
      case True
      with "2.prems" obtain res' where r: "percent_decode_spec cs = Some res'"
        and res: "res = map_sum id ((#) CHR '' '') res'"
        by (auto simp: emit_Some)
      from "2.IH"(1) [OF True r] res True show ?thesis
        by (simp add: urlDecode_from_single)
    next
      case plus: False
      with False "2.prems" obtain res' where r: "percent_decode_spec cs = Some res'"
        and res: "res = map_sum id ((#) c) res'"
        by (auto simp: emit_Some)
      from "2.IH"(3) [OF plus False r] res False plus show ?thesis
        by (simp add: urlDecode_from_single)
    qed
  next
    case True
    then have np: "c \<noteq> CHR ''+''" by simp
    show ?thesis
    proof (cases cs)
      case Nil
      with True "2.prems" show ?thesis by (simp add: InvalidEncoding_def)
    next
      case c1: (Cons h1 t)
      show ?thesis
      proof (cases t)
        case Nil
        with True c1 "2.prems" show ?thesis by (simp add: InvalidEncoding_def)
      next
        case c2: (Cons h2 cs')
        from True c1 c2 "2.prems" obtain d1 d2 where
          d1: "hex_digit h1 = Some d1" and d2: "hex_digit h2 = Some d2"
          by (auto split: option.splits)
        with True c1 c2 "2.prems" obtain res' where r: "percent_decode_spec cs' = Some res'"
          and res: "res = map_sum id ((#) (char_of (16 * d1 + d2))) res'"
          by (auto simp: emit_Some)
        have "(Some d1, Some d2) = (hex_digit h1, hex_digit h2)" using d1 d2 by simp
        from "2.IH"(2) [OF np True c1 c2 this refl refl r] have "urlDecode_from cs' [] = res'" .
        moreover have "char_of (16 * int d1 + int d2) = char_of (16 * d1 + d2)"
          using char_of_nat [of "16 * d1 + d2", where ?'a = int] by simp
        ultimately show ?thesis
          using True c1 c2 res stoi16_hex [OF d1 d2] by (simp add: urlDecode_from_single)
      qed
    qed
  qed
qed

lemma truncated_escape_Cons:
  assumes "c \<noteq> CHR ''%''"
  shows "truncated_escape (c # cs) = truncated_escape cs"
proof (cases "length cs \<le> 1")
  case True
  then have "length cs - 2 = 0" and "Suc (length cs) - 2 = 0" by simp_all
  with assms show ?thesis by (simp add: truncated_escape_def)
next
  case False
  then have "Suc (length cs) - 2 = Suc (length cs - 2)" by simp
  then show ?thesis by (simp add: truncated_escape_def)
qed

lemma truncated_escape_skip:
  "truncated_escape (p # a # b # cs) = truncated_escape (a # b # cs)"
  by (simp add: truncated_escape_def)

lemma percent_decode_spec_fails:
  "percent_decode_spec v = Some res \<Longrightarrow>
     (isl res \<longleftrightarrow> truncated_escape v) \<and> (isl res \<longrightarrow> res = Inl InvalidEncoding)"
proof (induction v arbitrary: res rule: percent_decode_spec.induct)
  case 1
  then show ?case by (auto simp: truncated_escape_def)
next
  case (2 c cs)
  show ?case
  proof (cases "c = CHR ''%''")
    case False
    show ?thesis
    proof (cases "c = CHR ''+''")
      case True
      with "2.prems" obtain res' where r: "percent_decode_spec cs = Some res'"
        and res: "res = map_sum id ((#) CHR '' '') res'"
        by (auto simp: emit_Some)
      from "2.IH"(1) [OF True r] res False show ?thesis
        by (cases res') (simp_all add: truncated_escape_Cons)
    next
      case plus: False
      with False "2.prems" obtain res' where r: "percent_decode_spec cs = Some res'"
        and res: "res = map_sum id ((#) c) res'"
        by (auto simp: emit_Some)
      from "2.IH"(3) [OF plus False r] res False show ?thesis
        by (cases res') (simp_all add: truncated_escape_Cons)
    qed
  next
    case True
    then have np: "c \<noteq> CHR ''+''" by simp
    show ?thesis
    proof (cases cs)
      case Nil
      with True "2.prems" show ?thesis by (auto simp: truncated_escape_def)
    next
      case c1: (Cons h1 t)
      show ?thesis
      proof (cases t)
        case Nil
        with True c1 "2.prems" show ?thesis by (auto simp: truncated_escape_def)
      next
        case c2: (Cons h2 cs')
        from True c1 c2 "2.prems" obtain d1 d2 where
          d1: "hex_digit h1 = Some d1" and d2: "hex_digit h2 = Some d2"
          by (auto split: option.splits)
        with True c1 c2 "2.prems" obtain res' where r: "percent_decode_spec cs' = Some res'"
          and res: "res = map_sum id ((#) (char_of (16 * d1 + d2))) res'"
          by (auto simp: emit_Some)
        have "(Some d1, Some d2) = (hex_digit h1, hex_digit h2)" using d1 d2 by simp
        from "2.IH"(2) [OF np True c1 c2 this refl refl r]
        have ih: "(isl res' \<longleftrightarrow> truncated_escape cs') \<and> (isl res' \<longrightarrow> res' = Inl InvalidEncoding)" .
        from hex_digit_value [OF d1] hex_digit_value [OF d2]
        have "h1 \<noteq> CHR ''%''" and "h2 \<noteq> CHR ''%''" by simp_all
        then have "truncated_escape (c # h1 # h2 # cs') = truncated_escape cs'"
          by (simp add: truncated_escape_skip truncated_escape_Cons)
        with ih res c1 c2 show ?thesis
          by (cases res') simp_all
      qed
    qed
  qed
qed

text \<open>
  Claim C5. The percent-decoder, applied to each query parameter value, scans
  left-to-right turning \<open>+\<close> into a space and \<open>%\<close> followed by two hexadecimal
  digits into the corresponding single byte, copies every other character unchanged, and
  fails with \<open>InvalidEncoding\<close> exactly when fewer than two characters remain after a
  \<open>%\<close>; in particular \<open>a%20b+c\<close> decodes to \<open>a b c\<close> and \<open>a%2\<close> fails.

  As stated the claim fails where a \<open>%\<close> is followed by two characters that are not
  both hexadecimal digits, because \<open>std::stoi\<close> then decides: \<open>%2%3\<close> decodes to the
  bytes 0x02 and \<open>3\<close> although only one character remains after its second \<open>%\<close>
  (\<open>stoi\<close> reads \<open>2%\<close> as 2, and the second \<open>%\<close> is skipped with it), and \<open>%zz\<close>
  fails, with the \<open>std::invalid_argument\<close> of \<open>stoi\<close>, although two characters
  remain.
\<close>

theorem urlDecode_stoi_leniency:
  "urlDecode ''%2%3'' = Inr [CHR 0x02, CHR ''3''] \<and> truncated_escape ''%2%3'' \<and>
   urlDecode ''%zz'' = Inl (invalid_argument ''stoi'') \<and> \<not> truncated_escape ''%zz''"
  by code_simp

text \<open>
  Claim C5, amended: on every value for which the decoder of the specification is
  defined (each \<open>%\<close> that the scan reaches is followed by two hexadecimal digits or by
  fewer than two characters) \<open>urlDecode\<close> returns what the specification says, it fails
  exactly when fewer than two characters remain after a \<open>%\<close>, and the failure is
  \<open>std::invalid_argument("Invalid URL encoding")\<close>.
\<close>

theorem urlDecode_refines_spec:
  assumes "percent_decode_spec v = Some res"
  shows "urlDecode v = res \<and> (isl (urlDecode v) \<longleftrightarrow> truncated_escape v) \<and>
         (isl (urlDecode v) \<longrightarrow> urlDecode v = Inl (invalid_argument ''Invalid URL encoding''))"
  using urlDecode_from_spec [OF assms] percent_decode_spec_fails [OF assms]
  by (simp add: urlDecode_def InvalidEncoding_def)

theorem urlDecode_refines_spec_witness:
  "urlDecode ''a%20b+c'' = Inr ''a b c'' \<and> \<not> truncated_escape ''a%20b+c'' \<and>
   urlDecode ''a%2'' = Inl (invalid_argument ''Invalid URL encoding'') \<and> truncated_escape ''a%2''"
proof -
  have 1: "percent_decode_spec ''a%20b+c'' = Some (Inr ''a b c'')"
    by code_simp
  have 2: "percent_decode_spec ''a%2'' = Some (Inl (invalid_argument ''Invalid URL encoding''))"
    by code_simp
  have a: "urlDecode ''a%20b+c'' = Inr ''a b c''"
    using urlDecode_refines_spec [OF 1] by (rule conjunct1)
  have b: "\<not> truncated_escape ''a%20b+c''"
    by code_simp
  have c: "urlDecode ''a%2'' = Inl (invalid_argument ''Invalid URL encoding'')"
    using urlDecode_refines_spec [OF 2] by (rule conjunct1)
  have d: "truncated_escape ''a%2''"
    by code_simp
  from a b c d show ?thesis by (intro conjI)
qed

subsection \<open>The scheme\<close>

lemma isSchemeValid_iff:
  "isSchemeValid s \<longleftrightarrow>
     (\<forall>c\<in>set s. isalpha c \<or> c = CHR ''+'' \<or> c = CHR ''-'' \<or> c = CHR ''.'')"
  by (induction s) auto

lemma not_isupper_tolower: "\<not> isupper (tolower c)"
  by (simp add: tolower_def isupper_def)

lemma read_authority_Ok_frame:
  assumes "read_authority result cur = Inr r" and ok: "errorCode r = LUrlParserError_Ok"
  shows "scheme r = scheme result"
proof -
  from read_authority_cases [OF assms(1)] ok
  obtain cur0 r1 cur1 r2 cur2 r3 cur3 where
    u: "read_user result cur0 = Inr (r1, cur1)"
    and h: "read_host r1 cur1 = (r2, cur2)"
    and p: "read_port r2 cur2 = (r3, cur3)"
    and t: "read_path r3 cur3 = Inr r"
    by (auto simp: ParseURL_ctor_def)
  from read_user_eq [OF u] obtain un pw where "r1 = result\<lparr> userName := un, password := pw \<rparr>"
    by blast
  moreover from read_host_eq [OF h] obtain ho where "r2 = r1\<lparr> host := ho \<rparr>" by blast
  moreover from read_port_eq [OF p] obtain po where "r3 = r2\<lparr> port := po \<rparr>" by blast
  moreover from read_path_Ok [OF t ok] obtain pa q ps f where
    "r = r3\<lparr> path := pa, query := q, url_parameters := ps, fragment := f,
                  errorCode := LUrlParserError_Ok \<rparr>" by blast
  ultimately show ?thesis by simp
qed

text \<open>
  Claim C7. For every input, if the scheme candidate (the text before the boundary)
  contains any character that is not a letter, \<open>+\<close>, \<open>-\<close> or \<open>.\<close> - a digit or
  \<open>_\<close>, for example - \<open>parseURL\<close> fails with \<open>InvalidSchemeName\<close>; otherwise the
  scheme is stored lower-cased regardless of the case of the input: the scan goes on
  with a record whose scheme is the candidate with every upper-case letter replaced by
  its lower-case letter, the result is not \<open>InvalidSchemeName\<close>, and a successful
  result has that scheme.
\<close>

theorem scheme_checked_and_lowered:
  assumes "scheme_end (c_str URL) = Inr n"
  shows "((\<exists>c\<in>set (take n (c_str URL)).
             \<not> isalpha c \<and> c \<noteq> CHR ''+'' \<and> c \<noteq> CHR ''-'' \<and> c \<noteq> CHR ''.'') \<longrightarrow>
          parseURL URL = Inr (ParseURL_ctor LUrlParserError_InvalidSchemeName)) \<and>
         ((\<forall>c\<in>set (take n (c_str URL)).
             isalpha c \<or> c = CHR ''+'' \<or> c = CHR ''-'' \<or> c = CHR ''.'') \<longrightarrow>
          parseURL URL =
            read_authority
              ((ParseURL_ctor LUrlParserError_Ok)\<lparr> scheme := map tolower (take n (c_str URL)) \<rparr>)
              (drop (Suc n) (c_str URL)) \<and>
          parseURL URL \<noteq> Inr (ParseURL_ctor LUrlParserError_InvalidSchemeName) \<and>
          (\<forall>r. parseURL URL = Inr r \<and> errorCode r = LUrlParserError_Ok \<longrightarrow>
               scheme r = map tolower (take n (c_str URL)) \<and>
               (\<forall>c\<in>set (scheme r). \<not> isupper c)))"
proof (rule conjI; rule impI)
  assume "\<exists>c\<in>set (take n (c_str URL)).
             \<not> isalpha c \<and> c \<noteq> CHR ''+'' \<and> c \<noteq> CHR ''-'' \<and> c \<noteq> CHR ''.''"
  then have "\<not> isSchemeValid (take n (c_str URL))" by (auto simp: isSchemeValid_iff)
  with assms show "parseURL URL = Inr (ParseURL_ctor LUrlParserError_InvalidSchemeName)"
    by (simp add: parseURL_def Let_def)
next
  let ?r0 = "(ParseURL_ctor LUrlParserError_Ok)\<lparr> scheme := map tolower (take n (c_str URL)) \<rparr>"
  assume "\<forall>c\<in>set (take n (c_str URL)).
             isalpha c \<or> c = CHR ''+'' \<or> c = CHR ''-'' \<or> c = CHR ''.''"
  then have "isSchemeValid (take n (c_str URL))" by (simp add: isSchemeValid_iff)
  with assms have eq: "parseURL URL = read_authority ?r0 (drop (Suc n) (c_str URL))"
    by (simp add: parseURL_def Let_def)
  have 1: "parseURL URL \<noteq> Inr (ParseURL_ctor LUrlParserError_InvalidSchemeName)"
  proof
    assume a: "parseURL URL = Inr (ParseURL_ctor LUrlParserError_InvalidSchemeName)"
    with eq have "read_authority ?r0 (drop (Suc n) (c_str URL)) =
        Inr (ParseURL_ctor LUrlParserError_InvalidSchemeName)" by simp
    from read_authority_cases [OF this] show False
      by (auto dest!: read_path_errorCode simp: ParseURL_ctor_def)
  qed
  have 2: "scheme r = map tolower (take n (c_str URL)) \<and> (\<forall>c\<in>set (scheme r). \<not> isupper c)"
    if "parseURL URL = Inr r \<and> errorCode r = LUrlParserError_Ok" for r
  proof -
    from that eq have "read_authority ?r0 (drop (Suc n) (c_str URL)) = Inr r"
      and "errorCode r = LUrlParserError_Ok" by simp_all
    from read_authority_Ok_frame [OF this]
    have "scheme r = map tolower (take n (c_str URL))" by simp
    then show ?thesis by (auto simp: not_isupper_tolower)
  qed
  show "parseURL URL =
            read_authority
              ((ParseURL_ctor LUrlParserError_Ok)\<lparr> scheme := map tolower (take n (c_str URL)) \<rparr>)
              (drop (Suc n) (c_str URL)) \<and>
          parseURL URL \<noteq> Inr (ParseURL_ctor LUrlParserError_InvalidSchemeName) \<and>
          (\<forall>r. parseURL URL = Inr r \<and> errorCode r = LUrlParserError_Ok \<longrightarrow>
               scheme r = map tolower (take n (c_str URL)) \<and>
               (\<forall>c\<in>set (scheme r). \<not> isupper c))"
  proof (intro conjI)
    show "parseURL URL = read_authority ?r0 (drop (Suc n) (c_str URL))" by (rule eq)
    show "parseURL URL \<noteq> Inr (ParseURL_ctor LUrlParserError_InvalidSchemeName)" by (rule 1)
    show "\<forall>r. parseURL URL = Inr r \<and> errorCode r = LUrlParserError_Ok \<longrightarrow>
               scheme r = map tolower (take n (c_str URL)) \<and>
               (\<forall>c\<in>set (scheme r). \<not> isupper c)"
      by (intro allI impI) (rule 2)
  qed
qed

lemma tolower_HTtp:
  "tolower CHR ''H'' = CHR ''h''" "tolower CHR ''T'' = CHR ''t''" "tolower CHR ''P'' = CHR ''p''"
  "tolower CHR ''t'' = CHR ''t''"
  by code_simp+

theorem scheme_checked_and_lowered_witness:
  "parseURL ''ht1p://x'' = Inr (ParseURL_ctor LUrlParserError_InvalidSchemeName) \<and>
   parseURL ''h_p://x'' = Inr (ParseURL_ctor LUrlParserError_InvalidSchemeName) \<and>
   parseURL ''HTtP://x'' = Inr ((ParseURL_ctor LUrlParserError_Ok)\<lparr> scheme := ''http'', host := ''x'' \<rparr>) \<and>
   scheme ((ParseURL_ctor LUrlParserError_Ok)\<lparr> scheme := ''http'', host := ''x'' \<rparr>)
     = map tolower ''HTtP''"
proof -
  have n1: "scheme_end (c_str ''ht1p://x'') = Inr 4"
    by (simp add: c_str_def scheme_end_def)
  have b1: "\<exists>c\<in>set (take 4 (c_str ''ht1p://x'')).
             \<not> isalpha c \<and> c \<noteq> CHR ''+'' \<and> c \<noteq> CHR ''-'' \<and> c \<noteq> CHR ''.''"
    by (simp add: c_str_def isalpha_def isupper_def islower_def)
  from scheme_checked_and_lowered [OF n1, THEN conjunct1] b1
  have 1: "parseURL ''ht1p://x'' = Inr (ParseURL_ctor LUrlParserError_InvalidSchemeName)"
    by (rule mp)
  have n2: "scheme_end (c_str ''h_p://x'') = Inr 3"
    by (simp add: c_str_def scheme_end_def)
  have b2: "\<exists>c\<in>set (take 3 (c_str ''h_p://x'')).
             \<not> isalpha c \<and> c \<noteq> CHR ''+'' \<and> c \<noteq> CHR ''-'' \<and> c \<noteq> CHR ''.''"
    by (simp add: c_str_def isalpha_def isupper_def islower_def)
  from scheme_checked_and_lowered [OF n2, THEN conjunct1] b2
  have 2: "parseURL ''h_p://x'' = Inr (ParseURL_ctor LUrlParserError_InvalidSchemeName)"
    by (rule mp)
  have n3: "scheme_end (c_str ''HTtP://x'') = Inr 4"
    by (simp add: c_str_def scheme_end_def)
  have b3: "\<forall>c\<in>set (take 4 (c_str ''HTtP://x'')).
             isalpha c \<or> c = CHR ''+'' \<or> c = CHR ''-'' \<or> c = CHR ''.''"
    by (simp add: c_str_def isalpha_def isupper_def islower_def)
  have 3: "parseURL ''HTtP://x'' =
      Inr ((ParseURL_ctor LUrlParserError_Ok)\<lparr> scheme := ''http'', host := ''x'' \<rparr>)"
    by (simp add: parseURL_def c_str_def scheme_end_def read_authority_def read_user_def
        read_password_def read_host_def read_port_def read_path_def ParseURL_ctor_def
        isalpha_def isupper_def islower_def tolower_HTtp)
  have ok: "errorCode ((ParseURL_ctor LUrlParserError_Ok)\<lparr> scheme := ''http'', host := ''x'' \<rparr>)
      = LUrlParserError_Ok"
    by (simp add: ParseURL_ctor_def)
  have t: "take 4 (c_str ''HTtP://x'') = ''HTtP''"
    by (simp add: c_str_def)
  have "scheme ((ParseURL_ctor LUrlParserError_Ok)\<lparr> scheme := ''http'', host := ''x'' \<rparr>)
     = map tolower (take 4 (c_str ''HTtP://x''))"
    by (rule scheme_checked_and_lowered [OF n3, THEN conjunct2, THEN mp, OF b3,
          THEN conjunct2, THEN conjunct2, THEN spec, THEN mp, OF conjI [OF 3 ok],
          THEN conjunct1])
  then have 4: "scheme ((ParseURL_ctor LUrlParserError_Ok)\<lparr> scheme := ''http'', host := ''x'' \<rparr>)
     = map tolower ''HTtP''"
    unfolding t .
  from 1 2 3 4 show ?thesis by (intro conjI)
qed

text \<open>
  The fallback of line 99 where it is defined: without a \<open>:\<close> and with the first
  \<open>/\<close> at offset \<open>j + 1\<close>, the candidate is the first \<open>j\<close> characters, the
  character at offset \<open>j\<close> is skipped like a \<open>:\<close>, and the scan goes on at the
  \<open>/\<close>.
\<close>

lemma scheme_end_slash_fallback:
  assumes "CHR '':'' \<notin> set cs" and "strchr cs CHR ''/'' = Some (Suc j)"
  shows "scheme_end cs = Inr j \<and> drop (Suc j) cs = CHR ''/'' # drop (Suc (Suc j)) cs"
proof -
  from assms have "scheme_end cs = Inr j"
    by (simp add: scheme_end_def strchr_None [symmetric])
  moreover from strchr_Some [OF assms(2)]
  have "drop (Suc j) cs = CHR ''/'' # drop (Suc (Suc j)) cs"
    by (simp add: Cons_nth_drop_Suc [symmetric])
  ultimately show ?thesis by simp
qed

lemma parseURL_slash_fallback:
  assumes "CHR '':'' \<notin> set (c_str URL)" and "strchr (c_str URL) CHR ''/'' = Some (Suc j)"
  shows "parseURL URL =
           (if \<not> isSchemeValid (take j (c_str URL))
            then Inr (ParseURL_ctor LUrlParserError_InvalidSchemeName)
            else read_authority
                   ((ParseURL_ctor LUrlParserError_Ok)\<lparr> scheme := map tolower (take j (c_str URL)) \<rparr>)
                   (CHR ''/'' # drop (Suc (Suc j)) (c_str URL)))"
  using scheme_end_slash_fallback [OF assms] by (simp add: parseURL_def Let_def)

subsection \<open>The port accessor\<close>

text \<open>
  Claim C9. \<open>getPort\<close> returns success with the port as an integer if and only if
  the parse result is valid (the error code is \<open>Ok\<close>) and the raw port string converts
  under base-10 integer parsing to a value strictly greater than 0 and at most 65535; in
  particular for \<open>http://example.com:99999/\<close> \<open>getPort\<close> fails while \<open>isValid()\<close>
  remains true. The code tests the range (line 77) on what \<open>atoi\<close> returns, and
  \<open>atoi\<close> has wrapped a number above \<open>INT_MAX\<close> around by then: the port
  \<open>4294967297\<close>, far above 65535, is returned as the valid port 1.
\<close>

theorem getPort_wraps_around:
  "parseURL ''http://h:4294967297/'' =
     Inr ((ParseURL_ctor LUrlParserError_Ok)
            \<lparr> scheme := ''http'', host := ''h'', port := ''4294967297'' \<rparr>) \<and>
   isValid ((ParseURL_ctor LUrlParserError_Ok)
            \<lparr> scheme := ''http'', host := ''h'', port := ''4294967297'' \<rparr>) \<and>
   digits_value 10 ''4294967297'' = 4294967297 \<and>
   getPort ((ParseURL_ctor LUrlParserError_Ok)
            \<lparr> scheme := ''http'', host := ''h'', port := ''4294967297'' \<rparr>) = Some 1"
proof -
  let ?r = "(ParseURL_ctor LUrlParserError_Ok)
            \<lparr> scheme := ''http'', host := ''h'', port := ''4294967297'' \<rparr>"
  have 1: "parseURL ''http://h:4294967297/'' = Inr ?r"
    by (simp add: scan_simps)
  have 2: "isValid ?r"
    by (simp add: isValid_def ParseURL_ctor_def)
  have 3: "digits_value 10 ''4294967297'' = 4294967297"
    by code_simp
  have "atoi ''4294967297'' = 1" by code_simp
  then have 4: "getPort ?r = Some 1"
    by (simp add: getPort_def isValid_def ParseURL_ctor_def c_str_def)
  from 1 2 3 4 show ?thesis by (intro conjI)
qed

lemma atoi_wraps:
  "atoi ''4294967297'' = 1" "atoi ''2147483648'' = - 2147483648"
  "atoi ''99999999999999999999'' = - 1"
  by code_simp+

text \<open>
  The accessor in terms of \<open>atoi\<close>, and \<open>atoi\<close> where nothing wraps: a number within
  \<open>int\<close> is returned as it is, so there the range test of line 77 is a test of the
  number written in the port text.
\<close>

lemma getPort_atoi:
  "getPort r = Some n \<longleftrightarrow> isValid r \<and> atoi (c_str (port r)) = n \<and> 0 < n \<and> n \<le> 65535"
  by (auto simp: getPort_def Let_def)

lemma long_to_int_id:
  assumes "INT_MIN \<le> v" and "v \<le> INT_MAX"
  shows "long_to_int v = v"
proof -
  from assms have "0 \<le> v + 2147483648" and "v + 2147483648 < 4294967296"
    by (simp_all add: INT_MIN_def INT_MAX_def)
  then have "(v + 2147483648) mod 4294967296 = v + 2147483648"
    by (rule mod_pos_pos_trivial)
  then show ?thesis by (simp add: long_to_int_def)
qed

lemma atoi_within_int:
  assumes "ds = takeWhile (\<lambda>c. digit_value c < 10) (strtol_body s)"
    and "v = (if strtol_sign s then - digits_value 10 ds else digits_value 10 ds)"
    and "INT_MIN \<le> v" and "v \<le> INT_MAX"
  shows "atoi s = v"
proof -
  from assms(3,4) have "\<not> v < LONG_MIN" and "\<not> LONG_MAX < v"
    by (simp_all add: INT_MIN_def INT_MAX_def LONG_MIN_def LONG_MAX_def)
  moreover
  have "strtol10 s = (if v < LONG_MIN then LONG_MIN else if LONG_MAX < v then LONG_MAX else v)"
    unfolding strtol10_def Let_def assms(2) assms(1) ..
  ultimately have "strtol10 s = v" by simp
  with long_to_int_id [OF assms(3,4)] show ?thesis by (simp add: atoi_def)
qed

text \<open>
  The example of the claim holds, a negative port and a port without digits are
  refused, and digits followed by other text are read as the number they start with.
\<close>

lemma getPort_examples:
  "parseURL ''http://example.com:99999/'' =
     Inr ((ParseURL_ctor LUrlParserError_Ok)
            \<lparr> scheme := ''http'', host := ''example.com'', port := ''99999'' \<rparr>)"
  "isValid ((ParseURL_ctor LUrlParserError_Ok)
            \<lparr> scheme := ''http'', host := ''example.com'', port := ''99999'' \<rparr>)"
  "getPort ((ParseURL_ctor LUrlParserError_Ok)
            \<lparr> scheme := ''http'', host := ''example.com'', port := ''99999'' \<rparr>) = None"
  "getPort ((ParseURL_ctor LUrlParserError_Ok)\<lparr> port := ''8080'' \<rparr>) = Some 8080"
  "getPort ((ParseURL_ctor LUrlParserError_Ok)\<lparr> port := ''-80'' \<rparr>) = None"
  "getPort ((ParseURL_ctor LUrlParserError_Ok)\<lparr> port := ''http'' \<rparr>) = None"
  "getPort ((ParseURL_ctor LUrlParserError_Ok)\<lparr> port := ''80abc'' \<rparr>) = Some 80"
  "getPort ((ParseURL_ctor LUrlParserError_NoSlash)\<lparr> port := ''8080'' \<rparr>) = None"
proof -
  show "parseURL ''http://example.com:99999/'' =
     Inr ((ParseURL_ctor LUrlParserError_Ok)
            \<lparr> scheme := ''http'', host := ''example.com'', port := ''99999'' \<rparr>)"
    by (simp add: scan_simps)
  show "isValid ((ParseURL_ctor LUrlParserError_Ok)
            \<lparr> scheme := ''http'', host := ''example.com'', port := ''99999'' \<rparr>)"
    by (simp add: isValid_def ParseURL_ctor_def)
  have a: "atoi ''99999'' = 99999" "atoi ''8080'' = 8080" "atoi ''-80'' = - 80"
    "atoi ''http'' = 0" "atoi ''80abc'' = 80"
    by code_simp+
  from a show "getPort ((ParseURL_ctor LUrlParserError_Ok)
            \<lparr> scheme := ''http'', host := ''example.com'', port := ''99999'' \<rparr>) = None"
    by (simp add: getPort_def isValid_def ParseURL_ctor_def c_str_def)
  from a show "getPort ((ParseURL_ctor LUrlParserError_Ok)\<lparr> port := ''8080'' \<rparr>) = Some 8080"
    by (simp add: getPort_def isValid_def ParseURL_ctor_def c_str_def)
  from a show "getPort ((ParseURL_ctor LUrlParserError_Ok)\<lparr> port := ''-80'' \<rparr>) = None"
    by (simp add: getPort_def isValid_def ParseURL_ctor_def c_str_def)
  from a show "getPort ((ParseURL_ctor LUrlParserError_Ok)\<lparr> port := ''http'' \<rparr>) = None"
    by (simp add: getPort_def isValid_def ParseURL_ctor_def c_str_def)
  from a show "getPort ((ParseURL_ctor LUrlParserError_Ok)\<lparr> port := ''80abc'' \<rparr>) = Some 80"
    by (simp add: getPort_def isValid_def ParseURL_ctor_def c_str_def)
  show "getPort ((ParseURL_ctor LUrlParserError_NoSlash)\<lparr> port := ''8080'' \<rparr>) = None"
    by (simp add: getPort_def isValid_def ParseURL_ctor_def)
qed

subsection \<open>Bracketed hosts\<close>

lemma hasUserName_iff:
  "hasUserName cs \<longleftrightarrow> CHR ''@'' \<in> set (takeWhile (\<lambda>c. c \<noteq> CHR ''/'') cs)"
  by (induction cs) auto

lemma scan_host_bracket:
  "CHR '']'' \<notin> set body \<Longrightarrow>
     scan_host True (body @ CHR '']'' # rest) = (body @ '']'', rest)"
  by (induction body) auto

text \<open>
  Claim C8. For every input whose authority begins with \<open>[\<close>, the host is scanned up
  to and including the matching \<open>]\<close> (bracket-inclusive, as in the host \<open>[::1]\<close>),
  the \<open>]\<close> is never treated as a port delimiter, and a \<open>:\<close> immediately after the
  \<open>]\<close> still starts port parsing.

  As stated the claim fails when the authority has an \<open>@\<close> before its first \<open>/\<close>:
  the lookahead of lines 134-146 runs before the bracket is looked at, so the \<open>[\<close>
  belongs to the user name. In \<open>http://[::1]@h/\<close> the user name is \<open>[\<close>, the
  password \<open>:1]\<close> and the host \<open>h\<close>.
\<close>

theorem bracket_in_credentials:
  "parseURL ''http://[::1]@h/'' =
     Inr ((ParseURL_ctor LUrlParserError_Ok)
            \<lparr> scheme := ''http'', userName := ''['', password := '':1]'', host := ''h'' \<rparr>)"
  by (simp add: scan_simps)

text \<open>
  Claim C8, amended: for every input whose authority begins with \<open>[\<close>, has a \<open>]\<close>
  after it and has no \<open>@\<close> before its first \<open>/\<close>, the host of a successful result is
  the text from the \<open>[\<close> up to and including the first \<open>]\<close>, whatever stands between
  them, and the port is the text between a \<open>:\<close> that immediately follows the \<open>]\<close>
  and the next \<open>/\<close> (empty without such a \<open>:\<close>).
\<close>

theorem bracketed_host:
  assumes n: "scheme_end (c_str URL) = Inr n"
    and d: "drop (Suc n) (c_str URL) = ''//'' @ CHR ''['' # body @ CHR '']'' # rest"
    and nb: "CHR '']'' \<notin> set body"
    and na: "CHR ''@'' \<notin> set (takeWhile (\<lambda>c. c \<noteq> CHR ''/'') (CHR ''['' # body @ CHR '']'' # rest))"
    and p: "parseURL URL = Inr r" and ok: "errorCode r = LUrlParserError_Ok"
  shows "host r = CHR ''['' # body @ '']'' \<and>
         port r = (case rest of
                     [] \<Rightarrow> []
                   | c # ps \<Rightarrow> if c = CHR '':'' then takeWhile (\<lambda>c. c \<noteq> CHR ''/'') ps else [])"
proof -
  let ?r0 = "(ParseURL_ctor LUrlParserError_Ok)\<lparr> scheme := map tolower (take n (c_str URL)) \<rparr>"
  let ?cur0 = "CHR ''['' # body @ CHR '']'' # rest"
  let ?r2 = "?r0\<lparr> host := CHR ''['' # body @ '']'' \<rparr>"
  from parseURL_cases [OF p] n ok
  have "read_authority ?r0 (drop (Suc n) (c_str URL)) = Inr r"
    by (auto simp: ParseURL_ctor_def split: if_splits)
  from read_authority_cases [OF this] ok d
  obtain r1 cur1 r2' cur2 r3 cur3 where
    u: "read_user ?r0 ?cur0 = Inr (r1, cur1)"
    and h: "read_host r1 cur1 = (r2', cur2)"
    and po: "read_port r2' cur2 = (r3, cur3)"
    and t: "read_path r3 cur3 = Inr r"
    by (auto simp: ParseURL_ctor_def)
  from na have "\<not> hasUserName ?cur0" by (simp only: hasUserName_iff not_False_eq_True)
  with u have r1: "r1 = ?r0" and cur1: "cur1 = ?cur0" by (simp_all add: read_user_def)
  from nb have "scan_host True ?cur0 = (CHR ''['' # body @ '']'', rest)"
    by (simp add: scan_host_bracket)
  with h r1 cur1 have r2: "r2' = ?r2" and cur2: "cur2 = rest" by (simp_all add: read_host_def)
  from read_path_Ok [OF t ok] obtain pa q ps f where
    "r = r3\<lparr> path := pa, query := q, url_parameters := ps, fragment := f,
                  errorCode := LUrlParserError_Ok \<rparr>" by blast
  then have hr: "host r = host r3" and pr: "port r = port r3" by simp_all
  from po r2 cur2 have "host r3 = CHR ''['' # body @ '']''"
    by (auto simp: read_port_def split: list.splits if_splits)
  moreover from po r2 cur2
  have "port r3 = (case rest of
                     [] \<Rightarrow> []
                   | c # ps \<Rightarrow> if c = CHR '':'' then takeWhile (\<lambda>c. c \<noteq> CHR ''/'') ps else [])"
    by (auto simp: read_port_def ParseURL_ctor_def split: list.splits if_splits)
  ultimately show ?thesis using hr pr by simp
qed

theorem bracketed_host_witness:
  "parseURL ''http://[::1]:8080/x'' =
     Inr ((ParseURL_ctor LUrlParserError_Ok)
            \<lparr> scheme := ''http'', host := ''[::1]'', port := ''8080'', path := ''x'' \<rparr>) \<and>
   host ((ParseURL_ctor LUrlParserError_Ok)
            \<lparr> scheme := ''http'', host := ''[::1]'', port := ''8080'', path := ''x'' \<rparr>)
     = CHR ''['' # ''::1'' @ '']'' \<and>
   port ((ParseURL_ctor LUrlParserError_Ok)
            \<lparr> scheme := ''http'', host := ''[::1]'', port := ''8080'', path := ''x'' \<rparr>)
     = takeWhile (\<lambda>c. c \<noteq> CHR ''/'') ''8080/x''"
proof -
  let ?r = "(ParseURL_ctor LUrlParserError_Ok)
            \<lparr> scheme := ''http'', host := ''[::1]'', port := ''8080'', path := ''x'' \<rparr>"
  have n: "scheme_end (c_str ''http://[::1]:8080/x'') = Inr 4"
    by (simp add: c_str_def scheme_end_def)
  have d: "drop (Suc 4) (c_str ''http://[::1]:8080/x'') =
      ''//'' @ CHR ''['' # ''::1'' @ CHR '']'' # '':8080/x''"
    by (simp add: c_str_def)
  have nb: "CHR '']'' \<notin> set ''::1''" by simp
  have na: "CHR ''@'' \<notin> set (takeWhile (\<lambda>c. c \<noteq> CHR ''/'')
      (CHR ''['' # ''::1'' @ CHR '']'' # '':8080/x''))"
    by simp
  have p: "parseURL ''http://[::1]:8080/x'' = Inr ?r"
    by (simp add: scan_simps)
  have ok: "errorCode ?r = LUrlParserError_Ok"
    by (simp add: ParseURL_ctor_def)
  from bracketed_host [OF n d nb na p ok]
  have "host ?r = CHR ''['' # ''::1'' @ '']''"
    and "port ?r = takeWhile (\<lambda>c. c \<noteq> CHR ''/'') ''8080/x''"
    by simp_all
  with p show ?thesis by (intro conjI)
qed

text \<open>After credentials the bracket is seen as well.\<close>

lemma bracketed_host_after_credentials:
  "parseURL ''http://u:p@[::1]:80/'' =
     Inr ((ParseURL_ctor LUrlParserError_Ok)
            \<lparr> scheme := ''http'', userName := ''u'', password := ''p'', host := ''[::1]'',
              port := ''80'' \<rparr>)"
  by (simp add: scan_simps)

end
